theory Spec2Isabelle
  imports Main
begin

section \<open>The push-to-talk dictation front end of \<^verbatim>\<open>src/app/cli.py\<close>\<close>

text \<open>
  The program installs three callbacks: \<^verbatim>\<open>on_press\<close> and \<^verbatim>\<open>on_release\<close> on the keyboard
  listener, \<^verbatim>\<open>callback\<close> on the audio input stream. They share the variables of
  \<^verbatim>\<open>main\<close> (\<^verbatim>\<open>recording\<close>, \<^verbatim>\<open>audio_data\<close>, \<^verbatim>\<open>pressed_ctrl\<close>, \<^verbatim>\<open>pressed_shift\<close>,
  \<^verbatim>\<open>progress\<close>, \<^verbatim>\<open>progress_current\<close>). The model is a record of these variables that each
  callback takes and returns; one callback runs at a time (an interleaving of whole
  callbacks). What the program does to the outside (terminal, file, network, keyboard
  controller, macro actions) is appended to a log, in the order of the source.
\<close>

subsection \<open>Strings\<close>

text \<open>
  A Python string is a list of Unicode code points. \<open>ascii\<close> reads a literal of this
  file as such a string.
\<close>

type_synonym pystr = "nat list"

definition ascii :: "string \<Rightarrow> pystr" where
  "ascii cs = map of_char cs"

subsection \<open>Text normalisation and macro dispatch: \<^verbatim>\<open>process_typed\<close>\<close>

text \<open>
  A value of the table \<^verbatim>\<open>MACROS\<close> is a callable (named by a number here) or a
  replacement string. The table is a Python dict: an association list in insertion
  order.
\<close>

datatype macro_value = Callable nat | Replacement pystr

text \<open>
  The answer to the request: \<^verbatim>\<open>requests.post\<close> raises (\<open>Transport_error\<close>),
  \<^verbatim>\<open>raise_for_status\<close> raises (\<open>Bad_status\<close>), the body is not JSON (\<open>Not_json\<close>), the JSON
  has no \<^verbatim>\<open>"text"\<close> entry (\<open>No_text_field\<close>), or it has one.
\<close>

datatype response = Transport_error | Bad_status | Not_json | No_text_field | Transcript pystr

text \<open>
  The effects on the outside world, one constructor for each call of the source.
  \<open>'b\<close> is the type of a 16-bit PCM sample.
\<close>

datatype 'b effect =
    Print_status
  | Print_cr
  | Print_value_error
  | Print_ignoring_short
  | Wavfile_write nat "'b list"
  | Requests_post "'b list"
  | Print_transcript pystr
  | Print_matched_function pystr pystr
  | Print_matched_replace pystr pystr pystr
  | Call_macro nat
  | Keyboard_type pystr
  | Print_request_error
  | Print_processing_error

text \<open>
  What the callbacks read and do not change: the module globals \<^verbatim>\<open>RAW_MODE\<close> and
  \<^verbatim>\<open>MACROS\<close>, the conversion of a float sample to int16
  (\<^verbatim>\<open>(x * 32767).astype(np.int16)\<close>, floating point, kept abstract), the answer of the
  transcription server to the posted recording, and three functions of the Python
  runtime and of the rich library that are not in the source: \<^verbatim>\<open>str.lower\<close> on a string
  with a character beyond ASCII, \<^verbatim>\<open>str.isalnum\<close> on a character beyond ASCII, and the
  parser of console markup, which gives \<open>None\<close> when a text renders and the message of the
  MarkupError that it raises otherwise.
\<close>

record ('a, 'b) env =
  RAW_MODE :: bool
  MACROS :: "(pystr \<times> macro_value) list"
  to_int16 :: "'a \<Rightarrow> 'b"
  transcribe :: "'b list \<Rightarrow> response"
  unicode_lower :: "pystr \<Rightarrow> pystr"
  unicode_isalnum :: "nat \<Rightarrow> bool"
  markup_error :: "pystr \<Rightarrow> pystr option"

text \<open>
  Python's \<^verbatim>\<open>str.lower\<close> and \<^verbatim>\<open>str.isalnum\<close>. On ASCII they are the tables below; beyond
  ASCII they are the functions of the environment (\<^verbatim>\<open>str.lower\<close> is not character-wise
  there, so it is given the whole string).
\<close>

definition upper_letters :: string where
  "upper_letters = ''ABCDEFGHIJKLMNOPQRSTUVWXYZ''"

definition lower_letters :: string where
  "lower_letters = ''abcdefghijklmnopqrstuvwxyz''"

definition digits :: string where
  "digits = ''0123456789''"

definition ascii_lower :: "nat \<Rightarrow> nat" where
  "ascii_lower c =
     (case map_of (zip (ascii upper_letters) (ascii lower_letters)) c of
        Some d \<Rightarrow> d | None \<Rightarrow> c)"

definition ascii_isalnum :: "nat \<Rightarrow> bool" where
  "ascii_isalnum c \<longleftrightarrow> c \<in> set (ascii (lower_letters @ upper_letters @ digits))"

definition lower :: "('a, 'b) env \<Rightarrow> pystr \<Rightarrow> pystr" where
  "lower e text =
     (if list_all (\<lambda>c. c < 128) text then map ascii_lower text else unicode_lower e text)"

definition isalnum :: "('a, 'b) env \<Rightarrow> nat \<Rightarrow> bool" where
  "isalnum e c = (if c < 128 then ascii_isalnum c else unicode_isalnum e c)"

text \<open>\<^verbatim>\<open>sluggified = "".join(char for char in text.lower() if char.isalnum())\<close>\<close>

definition sluggified :: "('a, 'b) env \<Rightarrow> pystr \<Rightarrow> pystr" where
  "sluggified e text = filter (isalnum e) (lower e text)"

text \<open>
  \<^verbatim>\<open>print\<close> is \<^verbatim>\<open>rich.print\<close>: a string is parsed as console markup, and the parser raises
  MarkupError at a closing tag that closes nothing. A tag starts with \<open>[\<close> (code point
  91), so a line without it is printed; for the others the environment decides. The
  exception carries its message.
\<close>

datatype error = KeyError | MarkupError pystr

definition rich_print ::
  "('a, 'b) env \<Rightarrow> pystr \<Rightarrow> 'b effect \<Rightarrow> 'b effect list \<Rightarrow> (error \<times> 'b effect list) + 'b effect list" where
  "rich_print e line eff w =
     (if 91 \<in> set line then
        (case markup_error e line of
           None \<Rightarrow> Inr (w @ [eff])
         | Some msg \<Rightarrow> Inl (MarkupError msg, w))
      else Inr (w @ [eff]))"

text \<open>The lines that the source prints with a text put in (39 and 34 are the quotes).\<close>

definition matched_function_line :: "pystr \<Rightarrow> pystr \<Rightarrow> pystr" where
  "matched_function_line key slug =
     ascii ''Matched '' @ [39] @ key @ [39] @ ascii '' in '' @ [39] @ slug @ [39] @
     ascii '' -> Executing function''"

definition matched_replace_line :: "pystr \<Rightarrow> pystr \<Rightarrow> pystr \<Rightarrow> pystr" where
  "matched_replace_line key slug v =
     ascii ''Matched '' @ [39] @ key @ [39] @ ascii '' in '' @ [39] @ slug @ [39] @
     ascii '' -> Replacing with '' @ [39] @ v @ [39]"

definition transcript_line :: "pystr \<Rightarrow> pystr" where
  "transcript_line transcript =
     ascii ''[yellow bold]>>>[/bold yellow] [white bold]'' @ [34] @ transcript @ [34] @
     ascii ''[/bold white]''"

definition processing_error_line :: "pystr \<Rightarrow> pystr" where
  "processing_error_line msg = ascii ''[red]Error processing transcript:[/red] '' @ msg"

text \<open>
  The loop \<^verbatim>\<open>for key, value in MACROS.items()\<close>: a callable match prints, runs the
  callable, empties \<^verbatim>\<open>text\<close> and goes on with the next entry (there is no \<^verbatim>\<open>break\<close>); a
  replacement match prints, sets \<^verbatim>\<open>text\<close> and leaves the loop. A print that raises
  leaves the function. The macro callables and the keyboard controller are taken to
  return normally: their calls are recorded in the log, and what they do themselves is
  outside the program.
\<close>

fun macro_loop ::
  "('a, 'b) env \<Rightarrow> (pystr \<times> macro_value) list \<Rightarrow> pystr \<Rightarrow> pystr \<Rightarrow> 'b effect list \<Rightarrow>
   (error \<times> 'b effect list) + (pystr \<times> 'b effect list)" where
  "macro_loop e [] slug text w = Inr (text, w)"
| "macro_loop e ((key, value) # rest) slug text w =
     (if slug = key then
        (case value of
           Callable f \<Rightarrow>
             (case rich_print e (matched_function_line key slug)
                     (Print_matched_function key slug) w of
                Inl r \<Rightarrow> Inl r
              | Inr w1 \<Rightarrow> macro_loop e rest slug [] (w1 @ [Call_macro f]))
         | Replacement v \<Rightarrow>
             (case rich_print e (matched_replace_line key slug v)
                     (Print_matched_replace key slug v) w of
                Inl r \<Rightarrow> Inl r
              | Inr w1 \<Rightarrow> Inr (v, w1)))
      else macro_loop e rest slug text w)"

definition process_typed ::
  "('a, 'b) env \<Rightarrow> pystr \<Rightarrow> 'b effect list \<Rightarrow> (error \<times> 'b effect list) + 'b effect list" where
  "process_typed e text w =
     (case (if \<not> RAW_MODE e then macro_loop e (MACROS e) (sluggified e text) text w
            else Inr (text, w)) of
        Inl r \<Rightarrow> Inl r
      | Inr (text', w') \<Rightarrow> Inr (if text' \<noteq> [] then w' @ [Keyboard_type text'] else w'))"

subsection \<open>The progress display\<close>

text \<open>
  \<^verbatim>\<open>progress = Progress()\<close> (the rich library) keeps a table of tasks by id, and the next
  id to give. \<^verbatim>\<open>start_task\<close>, \<^verbatim>\<open>stop_task\<close> and \<^verbatim>\<open>remove_task\<close> look the id up in the
  table (\<^verbatim>\<open>self._tasks[task_id]\<close>, \<^verbatim>\<open>del self._tasks[task_id]\<close>) and raise KeyError for an
  id that is not there, \<^verbatim>\<open>None\<close> included. The times kept for a task are not modelled.
\<close>

record progress =
  tasks :: "nat list"
  task_index :: nat
  started :: bool

definition add_task :: "progress \<Rightarrow> nat \<times> progress" where
  "add_task p = (task_index p, p\<lparr>tasks := tasks p @ [task_index p], task_index := task_index p + 1\<rparr>)"

definition lookup_task :: "nat option \<Rightarrow> progress \<Rightarrow> error + progress" where
  "lookup_task t p =
     (case t of None \<Rightarrow> Inl KeyError
      | Some i \<Rightarrow> if i \<in> set (tasks p) then Inr p else Inl KeyError)"

definition start_task :: "nat option \<Rightarrow> progress \<Rightarrow> error + progress" where
  "start_task t p = lookup_task t p"

definition stop_task :: "nat option \<Rightarrow> progress \<Rightarrow> error + progress" where
  "stop_task t p = lookup_task t p"

definition remove_task :: "nat option \<Rightarrow> progress \<Rightarrow> error + progress" where
  "remove_task t p =
     (case t of None \<Rightarrow> Inl KeyError
      | Some i \<Rightarrow> if i \<in> set (tasks p) then Inr (p\<lparr>tasks := removeAll i (tasks p)\<rparr>) else Inl KeyError)"

definition progress_start :: "progress \<Rightarrow> progress" where
  "progress_start p = p\<lparr>started := True\<rparr>"

definition progress_stop :: "progress \<Rightarrow> progress" where
  "progress_stop p = p\<lparr>started := False\<rparr>"

subsection \<open>The shared variables and the three callbacks\<close>

datatype key = Ctrl_r | Shift_r | Other_key nat

text \<open>\<^verbatim>\<open>RECORD_KEY = Key[VOICEKEY_DEFAULT]\<close> with \<^verbatim>\<open>VOICEKEY_DEFAULT = "shift_r"\<close>.\<close>

definition RECORD_KEY :: key where
  "RECORD_KEY = Shift_r"

definition MIN_SAMPLES_FOR_TRANSCRIBE :: nat where
  "MIN_SAMPLES_FOR_TRANSCRIBE = 8000"

definition sample_rate :: nat where
  "sample_rate = 16000"

text \<open>
  A frame is the block of mono samples of one call of \<^verbatim>\<open>callback\<close> (\<^verbatim>\<open>indata\<close>, of shape
  \<open>(n, 1)\<close>): a list of samples of type \<open>'a\<close>.
\<close>

record ('a, 'b) state =
  recording :: bool
  audio_data :: "'a list list"
  pressed_ctrl :: bool
  pressed_shift :: bool
  progress :: progress
  progress_current :: "nat option"
  world :: "'b effect list"

definition init :: "('a, 'b) state" where
  "init = \<lparr>recording = False, audio_data = [], pressed_ctrl = False, pressed_shift = False,
           progress = \<lparr>tasks = [], task_index = 0, started = False\<rparr>,
           progress_current = None, world = []\<rparr>"

text \<open>
  A keyboard callback returns (\<open>Inr\<close>, with the variables as it leaves them) or raises
  (\<open>Inl\<close>, with the exception and the variables as they are when it is raised).
\<close>

type_synonym ('a, 'b) result = "(error \<times> ('a, 'b) state) + ('a, 'b) state"

text \<open>The two assignments that open \<^verbatim>\<open>on_press\<close>, and the two that open \<^verbatim>\<open>on_release\<close>.\<close>

definition set_pressed :: "bool \<Rightarrow> key \<Rightarrow> ('a, 'b) state \<Rightarrow> ('a, 'b) state" where
  "set_pressed b k s =
     (let s1 = (if k = Ctrl_r then s\<lparr>pressed_ctrl := b\<rparr> else s)
      in if k = Shift_r then s1\<lparr>pressed_shift := b\<rparr> else s1)"

text \<open>
  The conditions of the two \<^verbatim>\<open>if\<close> statements, read after these assignments: the chord
  is engaged by a press, and the finalisation is started by a release.
\<close>

definition chord_engaged :: "key \<Rightarrow> ('a, 'b) state \<Rightarrow> bool" where
  "chord_engaged k s \<longleftrightarrow>
     pressed_ctrl (set_pressed True k s) \<and> pressed_shift (set_pressed True k s)"

definition chord_released :: "key \<Rightarrow> ('a, 'b) state \<Rightarrow> bool" where
  "chord_released k s \<longleftrightarrow>
     k = RECORD_KEY \<and>
     (pressed_shift (set_pressed False k s) = False \<or> pressed_ctrl (set_pressed False k s) = False)"

definition on_press :: "key \<Rightarrow> ('a, 'b) state \<Rightarrow> ('a, 'b) result" where
  "on_press k s =
     (let s1 = set_pressed True k s in
      if chord_engaged k s then
        (let s2 = s1\<lparr>recording := True, audio_data := []\<rparr> in
         case (if progress_current s2 \<noteq> None
               then remove_task (progress_current s2) (progress_stop (progress s2))
               else Inr (progress s2)) of
           Inl err \<Rightarrow> Inl (err, s2\<lparr>progress := progress_stop (progress s2)\<rparr>)
         | Inr p \<Rightarrow>
             (let (t, p') = add_task (progress_start p) in
              case start_task (Some t) p' of
                Inl err \<Rightarrow> Inl (err, s2\<lparr>progress := p', progress_current := Some t\<rparr>)
              | Inr p'' \<Rightarrow> Inr (s2\<lparr>progress := p'', progress_current := Some t\<rparr>)))
      else Inr s1)"

text \<open>
  The \<^verbatim>\<open>try\<close> block of \<^verbatim>\<open>on_release\<close> around the request, with its two handlers.
  \<^verbatim>\<open>requests.post\<close> raising, \<^verbatim>\<open>raise_for_status\<close> raising and a body that is not JSON are
  caught by \<^verbatim>\<open>except requests.exceptions.RequestException\<close>; a JSON without \<^verbatim>\<open>"text"\<close>
  is caught by \<^verbatim>\<open>except Exception\<close> (the messages of these exceptions are taken to hold
  no markup tag). A MarkupError raised by a print of the block is caught by
  \<^verbatim>\<open>except Exception\<close> too, whose own print has the message in it and may raise again:
  that exception leaves the handler. The \<^verbatim>\<open>finally\<close> block follows in \<open>on_release\<close>.
  \<^verbatim>\<open>wavfile.write\<close> is taken to return normally.
\<close>

definition request_and_type ::
  "('a, 'b) env \<Rightarrow> 'b list \<Rightarrow> 'b effect list \<Rightarrow> (error \<times> 'b effect list) + 'b effect list" where
  "request_and_type e clip w =
     (let w1 = w @ [Requests_post clip] in
      case transcribe e clip of
        Transport_error \<Rightarrow> Inr (w1 @ [Print_request_error])
      | Bad_status \<Rightarrow> Inr (w1 @ [Print_request_error])
      | Not_json \<Rightarrow> Inr (w1 @ [Print_request_error])
      | No_text_field \<Rightarrow> Inr (w1 @ [Print_processing_error])
      | Transcript transcript \<Rightarrow>
          if transcript \<noteq> [] then
            (case (case rich_print e (transcript_line transcript)
                          (Print_transcript transcript) w1 of
                     Inl r \<Rightarrow> Inl r
                   | Inr w2 \<Rightarrow> process_typed e transcript w2) of
               Inr w3 \<Rightarrow> Inr w3
             | Inl (err, w3) \<Rightarrow>
                 (case err of
                    KeyError \<Rightarrow> Inr (w3 @ [Print_processing_error])
                  | MarkupError msg \<Rightarrow>
                      rich_print e (processing_error_line msg) Print_processing_error w3))
          else Inr w1)"

text \<open>The log as a block of statements leaves it, returning or raising.\<close>

definition log_of :: "(error \<times> 'b effect list) + 'b effect list \<Rightarrow> 'b effect list" where
  "log_of r = (case r of Inl (err, w) \<Rightarrow> w | Inr w \<Rightarrow> w)"

text \<open>
  \<^verbatim>\<open>np.concatenate(audio_data, axis=0)\<close> raises ValueError for an empty list, which the
  source catches (\<^verbatim>\<open>print(e); return\<close>). The length of the converted array is the
  number of samples. The \<^verbatim>\<open>finally\<close> block runs whether the \<^verbatim>\<open>try\<close> block returns or
  raises.
\<close>

definition on_release :: "('a, 'b) env \<Rightarrow> key \<Rightarrow> ('a, 'b) state \<Rightarrow> ('a, 'b) result" where
  "on_release e k s =
     (let s1 = set_pressed False k s in
      if chord_released k s then
        (let s2 = s1\<lparr>recording := False\<rparr> in
         case stop_task (progress_current s2) (progress s2) of
           Inl err \<Rightarrow> Inl (err, s2)
         | Inr p1 \<Rightarrow>
         (case remove_task (progress_current s2) p1 of
           Inl err \<Rightarrow> Inl (err, s2)
         | Inr p2 \<Rightarrow>
             (let (t, p3) = add_task p2;
                  s3 = s2\<lparr>progress := p3, progress_current := Some t,
                          world := world s2 @ [Print_cr]\<rparr>
              in
              if audio_data s3 = [] then
                Inr (s3\<lparr>world := world s3 @ [Print_value_error]\<rparr>)
              else
                (let audio_data_np = concat (audio_data s3);
                     audio_data_int16 = map (to_int16 e) audio_data_np
                 in
                 if length audio_data_int16 < MIN_SAMPLES_FOR_TRANSCRIBE then
                   (let s4 = s3\<lparr>world := world s3 @ [Print_ignoring_short]\<rparr> in
                    case remove_task (progress_current s4) (progress s4) of
                      Inl err \<Rightarrow> Inl (err, s4)
                    | Inr p4 \<Rightarrow> Inr (s4\<lparr>progress := progress_stop p4\<rparr>))
                 else
                   (let r = request_and_type e audio_data_int16
                              (world s3 @ [Wavfile_write sample_rate audio_data_int16]);
                        s4 = s3\<lparr>world := log_of r\<rparr>
                    in
                    case remove_task (progress_current s4) (progress s4) of
                      Inl err \<Rightarrow> Inl (err, s4)
                    | Inr p4 \<Rightarrow>
                        (let s5 = s4\<lparr>progress := progress_stop p4, progress_current := None\<rparr>
                         in case r of Inl (err, w) \<Rightarrow> Inl (err, s5) | Inr w \<Rightarrow> Inr s5))))))
      else Inr s1)"

text \<open>
  \<^verbatim>\<open>callback(indata, frames, time, status)\<close>: the status is printed when it is set, and
  the frame is appended only while \<^verbatim>\<open>recording\<close>.
\<close>

definition callback :: "'a list \<Rightarrow> bool \<Rightarrow> ('a, 'b) state \<Rightarrow> ('a, 'b) state" where
  "callback indata status s =
     (let s1 = (if status then s\<lparr>world := world s @ [Print_status]\<rparr> else s)
      in if recording s1 then s1\<lparr>audio_data := audio_data s1 @ [indata]\<rparr> else s1)"

subsection \<open>Runs of the callbacks\<close>

text \<open>
  The listener and the input stream deliver events; an exception that leaves a keyboard
  callback ends the run (the listener stops and \<^verbatim>\<open>listener.join()\<close> raises it again).
\<close>

datatype 'a event = Press key | Release key | Audio "'a list" bool

fun step :: "('a, 'b) env \<Rightarrow> 'a event \<Rightarrow> ('a, 'b) state \<Rightarrow> ('a, 'b) result" where
  "step e (Press k) s = on_press k s"
| "step e (Release k) s = on_release e k s"
| "step e (Audio indata status) s = Inr (callback indata status s)"

fun run :: "('a, 'b) env \<Rightarrow> 'a event list \<Rightarrow> ('a, 'b) state \<Rightarrow> ('a, 'b) result" where
  "run e [] s = Inr s"
| "run e (ev # evs) s = (case step e ev s of Inl r \<Rightarrow> Inl r | Inr s' \<Rightarrow> run e evs s')"

subsection \<open>Notions used in the statements\<close>

text \<open>The variables as a callback leaves them, returning or raising.\<close>

definition final :: "('a, 'b) result \<Rightarrow> ('a, 'b) state" where
  "final r = (case r of Inl (err, s) \<Rightarrow> s | Inr s \<Rightarrow> s)"

text \<open>
  The task named by \<^verbatim>\<open>progress_current\<close> is in the table of the progress display: the
  lookups of \<^verbatim>\<open>stop_task\<close> and \<^verbatim>\<open>remove_task\<close> succeed.
\<close>

definition task_live :: "('a, 'b) state \<Rightarrow> bool" where
  "task_live s \<longleftrightarrow>
     (case progress_current s of None \<Rightarrow> False | Some i \<Rightarrow> i \<in> set (tasks (progress s)))"

text \<open>
  The invariant of the runs: while \<^verbatim>\<open>recording\<close> is set, the record key is held and
  the task of the progress display is live.
\<close>

definition session_inv :: "('a, 'b) state \<Rightarrow> bool" where
  "session_inv s \<longleftrightarrow> (if recording s then pressed_shift s \<and> task_live s else True)"

text \<open>The frames that a list of events delivers, in the order of arrival.\<close>

fun frames_of :: "'a event list \<Rightarrow> 'a list list" where
  "frames_of [] = []"
| "frames_of (Audio indata status # evs) = indata # frames_of evs"
| "frames_of (Press k # evs) = frames_of evs"
| "frames_of (Release k # evs) = frames_of evs"

text \<open>
  The events of a hold, from the state in which they arrive: frames, releases of keys
  other than the record key, and presses that do not engage the chord.
\<close>

fun hold :: "'a event list \<Rightarrow> ('a, 'b) state \<Rightarrow> bool" where
  "hold [] s = True"
| "hold (Audio indata status # evs) s = hold evs (callback indata status s)"
| "hold (Release k # evs) s = (k \<noteq> RECORD_KEY \<and> hold evs (set_pressed False k s))"
| "hold (Press k # evs) s = (\<not> chord_engaged k s \<and> hold evs (set_pressed True k s))"

text \<open>The converted clip of a state: what \<^verbatim>\<open>on_release\<close> writes and posts.\<close>

definition clip_of :: "('a, 'b) env \<Rightarrow> ('a, 'b) state \<Rightarrow> 'b list" where
  "clip_of e s = map (to_int16 e) (concat (audio_data s))"

text \<open>The clips that a log shows as posted to the transcription server, in order.\<close>

fun posted :: "'b effect list \<Rightarrow> 'b list list" where
  "posted [] = []"
| "posted (Requests_post clip # w) = clip # posted w"
| "posted (x # w) = posted w"

subsection \<open>A concrete configuration\<close>

text \<open>
  The macro table of the specification's example, a server that always gives the same
  answer, and integer samples converted by the identity. The texts of the examples are
  ASCII and the lines printed with them hold no \<open>[\<close>, so the functions for the characters
  beyond ASCII and the markup parser are not reached: they are left unspecified.
\<close>

definition macros_example :: "(pystr \<times> macro_value) list" where
  "macros_example =
     [(ascii ''wake'', Replacement (ascii ''hello world'')), (ascii ''stop'', Callable 0)]"

definition env_example :: "bool \<Rightarrow> response \<Rightarrow> (int, int) env" where
  "env_example raw r =
     \<lparr>RAW_MODE = raw, MACROS = macros_example, to_int16 = id, transcribe = (\<lambda>clip. r),
      unicode_lower = undefined, unicode_isalnum = undefined, markup_error = undefined\<rparr>"

definition init_example :: "(int, int) state" where
  "init_example = init"

text \<open>A frame of half a second of silence: 8000 samples.\<close>

definition long_frame :: "int list" where
  "long_frame = replicate 8000 0"

text \<open>
  The state after the chord has been pressed from the start, and the state after a long
  frame has then been delivered.
\<close>

definition engaged_example :: "(int, int) state" where
  "engaged_example =
     \<lparr>recording = True, audio_data = [], pressed_ctrl = True, pressed_shift = True,
      progress = \<lparr>tasks = [0], task_index = 1, started = True\<rparr>,
      progress_current = Some 0, world = []\<rparr>"

definition recorded_example :: "(int, int) state" where
  "recorded_example = engaged_example\<lparr>audio_data := [long_frame]\<rparr>"

section \<open>Properties\<close>

subsection \<open>Normalisation\<close>






subsection \<open>Macro dispatch\<close>








text \<open>The posted clips of a log are not changed by the dispatch, returning or raising.\<close>

lemma posted_append: "posted (u @ v) = posted u @ posted v"
  by (induction u rule: posted.induct) simp_all

lemma posted_rich_print:
  "posted [eff] = [] \<Longrightarrow> posted (log_of (rich_print e line eff w)) = posted w"
  by (auto simp: rich_print_def log_of_def posted_append split: option.splits)

lemma posted_macro_loop:
  "posted (case macro_loop e ms slug t w of Inl (err, w') \<Rightarrow> w' | Inr (t', w') \<Rightarrow> w') = posted w"
proof (induction ms arbitrary: t w)
  case Nil
  show ?case by simp
next
  case (Cons m ms)
  obtain key val where m: "m = (key, val)" by (cases m)
  show ?case
  proof (cases "slug = key")
    case False
    with m Cons.IH [of t w] show ?thesis by simp
  next
    case True
    show ?thesis
    proof (cases val)
      case (Callable f)
      let ?r = "rich_print e (matched_function_line key slug) (Print_matched_function key slug) w"
      have p: "posted (log_of ?r) = posted w" by (simp add: posted_rich_print)
      show ?thesis
      proof (cases ?r)
        case (Inl a)
        with p m True Callable show ?thesis by (cases a) (simp add: log_of_def)
      next
        case (Inr w1)
        with p have "posted (w1 @ [Call_macro f]) = posted w"
          by (simp add: log_of_def posted_append)
        with Inr m True Callable Cons.IH [of "[]" "w1 @ [Call_macro f]"] show ?thesis by simp
      qed
    next
      case (Replacement v)
      let ?r = "rich_print e (matched_replace_line key slug v) (Print_matched_replace key slug v) w"
      have p: "posted (log_of ?r) = posted w" by (simp add: posted_rich_print)
      show ?thesis
      proof (cases ?r)
        case (Inl a)
        with p m True Replacement show ?thesis by (cases a) (simp add: log_of_def)
      next
        case (Inr w1)
        with p m True Replacement show ?thesis by (simp add: log_of_def)
      qed
    qed
  qed
qed

lemma posted_process_typed: "posted (log_of (process_typed e text w)) = posted w"
proof (cases "RAW_MODE e")
  case True
  then show ?thesis by (simp add: process_typed_def log_of_def posted_append)
next
  case False
  from posted_macro_loop [of e "MACROS e" "sluggified e text" "text" w] False
  show ?thesis
    by (auto simp: process_typed_def log_of_def posted_append split: sum.splits prod.splits)
qed

lemma posted_request_and_type:
  "posted (log_of (request_and_type e clip w)) = posted w @ [clip]"
proof (cases "transcribe e clip")
  case (Transcript transcript)
  show ?thesis
  proof (cases "transcript = []")
    case True
    with Transcript show ?thesis
      by (simp add: request_and_type_def Let_def log_of_def posted_append)
  next
    case False
    let ?w1 = "w @ [Requests_post clip]"
    let ?r1 = "rich_print e (transcript_line transcript) (Print_transcript transcript) ?w1"
    let ?r2 = "case ?r1 of Inl r \<Rightarrow> Inl r | Inr w2 \<Rightarrow> process_typed e transcript w2"
    have p1: "posted (log_of ?r1) = posted ?w1" by (simp add: posted_rich_print)
    have p2: "posted (log_of ?r2) = posted ?w1"
    proof (cases ?r1)
      case (Inl a)
      with p1 show ?thesis by simp
    next
      case (Inr w2)
      with p1 posted_process_typed [of e transcript w2] show ?thesis
        by (simp add: log_of_def)
    qed
    have "posted (log_of (request_and_type e clip w)) = posted ?w1"
    proof (cases ?r2)
      case (Inr w3)
      with p2 Transcript False show ?thesis
        by (simp add: request_and_type_def Let_def log_of_def)
    next
      case (Inl a)
      obtain err w3 where a: "a = (err, w3)" by (cases a)
      from p2 Inl a have w3: "posted w3 = posted ?w1" by (simp add: log_of_def)
      show ?thesis
      proof (cases err)
        case KeyError
        with Inl a w3 Transcript False show ?thesis
          by (simp add: request_and_type_def Let_def log_of_def posted_append)
      next
        case (MarkupError msg)
        have "posted (log_of (rich_print e (processing_error_line msg) Print_processing_error w3))
            = posted w3"
          by (simp add: posted_rich_print)
        with Inl a w3 MarkupError Transcript False show ?thesis
          by (simp add: request_and_type_def Let_def)
      qed
    qed
    then show ?thesis by (simp add: posted_append)
  qed
qed (simp_all add: request_and_type_def Let_def log_of_def posted_append)

text \<open>
  A transcript whose line the markup parser rejects, the message of the MarkupError
  being rejected in turn: the exception leaves the handler after the post.
\<close>

lemma request_and_type_markup_error:
  assumes "transcribe e clip = Transcript transcript" and "transcript \<noteq> []"
    and "markup_error e (transcript_line transcript) = Some msg"
    and "markup_error e (processing_error_line msg) = Some msg'"
  shows "request_and_type e clip w = Inl (MarkupError msg', w @ [Requests_post clip])"
proof -
  have "91 \<in> set (transcript_line transcript)"
    by (simp add: transcript_line_def ascii_def)
  moreover have "91 \<in> set (processing_error_line msg)"
    by (simp add: processing_error_line_def ascii_def)
  ultimately show ?thesis
    using assms by (simp add: request_and_type_def Let_def rich_print_def)
qed

lemma request_and_type_failed:
  "transcribe e clip = Transport_error \<or> transcribe e clip = Bad_status \<Longrightarrow>
   request_and_type e clip w = Inr (w @ [Requests_post clip, Print_request_error])"
  by (auto simp: request_and_type_def Let_def)

lemma request_and_type_empty:
  "transcribe e clip = Transcript [] \<Longrightarrow>
   request_and_type e clip w = Inr (w @ [Requests_post clip])"
  by (simp add: request_and_type_def Let_def)

subsection \<open>The callbacks, one at a time\<close>

lemmas progress_defs = add_task_def lookup_task_def start_task_def stop_task_def remove_task_def
  progress_start_def progress_stop_def

lemma set_pressed_simps:
  "recording (set_pressed b k s) = recording s"
  "audio_data (set_pressed b k s) = audio_data s"
  "progress (set_pressed b k s) = progress s"
  "progress_current (set_pressed b k s) = progress_current s"
  "world (set_pressed b k s) = world s"
  "pressed_ctrl (set_pressed b k s) = (if k = Ctrl_r then b else pressed_ctrl s)"
  "pressed_shift (set_pressed b k s) = (if k = Shift_r then b else pressed_shift s)"
  by (simp_all add: set_pressed_def Let_def)

lemma chord_released_iff: "chord_released k s \<longleftrightarrow> k = Shift_r"
  by (auto simp: chord_released_def RECORD_KEY_def set_pressed_simps)

lemma chord_engaged_iff:
  "chord_engaged k s \<longleftrightarrow> (k = Ctrl_r \<or> pressed_ctrl s) \<and> (k = Shift_r \<or> pressed_shift s)"
  by (auto simp: chord_engaged_def set_pressed_simps)

lemma on_press_engaged:
  assumes "chord_engaged k s" "on_press k s = Inr s'"
  shows "recording s' \<and> audio_data s' = [] \<and> pressed_ctrl s' \<and> pressed_shift s' \<and> task_live s' \<and> world s' = world s"
  using assms
  by (auto simp: on_press_def Let_def chord_engaged_def set_pressed_simps progress_defs task_live_def
      split: if_splits sum.splits option.splits prod.splits)


lemma on_press_not_engaged:
  "\<not> chord_engaged k s \<Longrightarrow> on_press k s = Inr (set_pressed True k s)"
  by (simp add: on_press_def Let_def)

lemma task_live_set_pressed: "task_live (set_pressed b k s) = task_live s"
  by (simp add: task_live_def set_pressed_simps cong: option.case_cong)

lemma on_press_inv: "session_inv s \<Longrightarrow> on_press k s = Inr s' \<Longrightarrow> session_inv s'"
proof (cases "chord_engaged k s")
  case True
  assume "on_press k s = Inr s'"
  with True have "recording s' \<and> audio_data s' = [] \<and> pressed_ctrl s' \<and> pressed_shift s' \<and> task_live s' \<and> world s' = world s"
    by (rule on_press_engaged)
  then show ?thesis by (simp add: session_inv_def)
next
  case False
  assume "session_inv s" "on_press k s = Inr s'"
  with False show ?thesis
    by (auto simp: on_press_not_engaged session_inv_def set_pressed_simps task_live_set_pressed split: if_splits)
qed

lemma on_release_other:
  "k \<noteq> Shift_r \<Longrightarrow> on_release e k s = Inr (set_pressed False k s)"
  by (simp add: on_release_def Let_def chord_released_iff)

lemma on_release_ctrl: "on_release e Ctrl_r s = Inr (s\<lparr>pressed_ctrl := False\<rparr>)"
  by (simp add: on_release_other set_pressed_def)

lemma on_release_shift_fields:
  "\<not> recording (final (on_release e Shift_r s)) \<and>
   \<not> pressed_shift (final (on_release e Shift_r s)) \<and>
   pressed_ctrl (final (on_release e Shift_r s)) = pressed_ctrl s \<and>
   audio_data (final (on_release e Shift_r s)) = audio_data s"
  by (auto simp: on_release_def Let_def chord_released_iff set_pressed_simps progress_defs final_def
      split: if_splits sum.splits option.splits prod.splits)

lemma on_release_inv: "session_inv s \<Longrightarrow> on_release e k s = Inr s' \<Longrightarrow> session_inv s'"
proof (cases "k = Shift_r")
  case True
  assume "on_release e k s = Inr s'"
  with True have "\<not> recording s'" using on_release_shift_fields [of e s] by (simp add: final_def)
  then show ?thesis by (simp add: session_inv_def)
next
  case False
  assume "session_inv s" "on_release e k s = Inr s'"
  with False show ?thesis
    by (auto simp: on_release_other session_inv_def set_pressed_simps task_live_set_pressed split: if_splits)
qed

lemma callback_fields:
  "recording (callback f st s) = recording s"
  "pressed_ctrl (callback f st s) = pressed_ctrl s"
  "pressed_shift (callback f st s) = pressed_shift s"
  "progress (callback f st s) = progress s"
  "progress_current (callback f st s) = progress_current s"
  "audio_data (callback f st s) = (if recording s then audio_data s @ [f] else audio_data s)"
  "world (callback f st s) = (if st then world s @ [Print_status] else world s)"
  by (simp_all add: callback_def Let_def)

lemma task_live_callback: "task_live (callback f st s) = task_live s"
  by (simp add: task_live_def callback_fields cong: option.case_cong)

lemma callback_inv: "session_inv s \<Longrightarrow> session_inv (callback f st s)"
  by (simp add: session_inv_def task_live_callback callback_fields)

lemma step_inv: "session_inv s \<Longrightarrow> step e ev s = Inr s' \<Longrightarrow> session_inv s'"
  by (cases ev) (auto intro: on_press_inv on_release_inv callback_inv)

lemma run_inv: "session_inv s \<Longrightarrow> run e evs s = Inr s' \<Longrightarrow> session_inv s'"
proof (induction evs arbitrary: s)
  case Nil
  then show ?case by simp
next
  case (Cons ev evs)
  then show ?case by (auto split: sum.splits dest: step_inv)
qed

lemma init_inv: "session_inv init"
  by (simp add: session_inv_def init_def)

lemma reachable_inv: "run e evs init = Inr s \<Longrightarrow> session_inv s"
  using run_inv [OF init_inv] .

lemma recording_task_live: "run e evs init = Inr s \<Longrightarrow> recording s \<Longrightarrow> pressed_shift s \<and> task_live s"
  using reachable_inv [of e evs s] by (simp add: session_inv_def)

text \<open>
  A release of the record key while the task of the progress display is live: the three
  ways the finalisation ends.
\<close>

lemma on_release_shift_live:
  assumes "task_live s"
  shows "world (final (on_release e Shift_r s)) =
       (if audio_data s = [] then world s @ [Print_cr, Print_value_error]
        else if length (concat (audio_data s)) < MIN_SAMPLES_FOR_TRANSCRIBE
             then world s @ [Print_cr, Print_ignoring_short]
        else log_of (request_and_type e (clip_of e s)
               (world s @ [Print_cr, Wavfile_write sample_rate (clip_of e s)])))"
    and "on_release e Shift_r s =
       (if audio_data s \<noteq> [] \<and> MIN_SAMPLES_FOR_TRANSCRIBE \<le> length (concat (audio_data s))
        then (case request_and_type e (clip_of e s)
                     (world s @ [Print_cr, Wavfile_write sample_rate (clip_of e s)]) of
                Inl (err, w) \<Rightarrow> Inl (err, final (on_release e Shift_r s))
              | Inr w \<Rightarrow> Inr (final (on_release e Shift_r s)))
        else Inr (final (on_release e Shift_r s)))"
    and "if audio_data s \<noteq> [] \<and> MIN_SAMPLES_FOR_TRANSCRIBE \<le> length (concat (audio_data s))
         then progress_current (final (on_release e Shift_r s)) = None
         else progress_current (final (on_release e Shift_r s)) \<noteq> None"
    and "task_index (progress (final (on_release e Shift_r s))) = task_index (progress s) + 1"
proof -
  from assms obtain i where i: "progress_current s = Some i" "i \<in> set (tasks (progress s))"
    by (auto simp: task_live_def split: option.splits)
  show "world (final (on_release e Shift_r s)) =
       (if audio_data s = [] then world s @ [Print_cr, Print_value_error]
        else if length (concat (audio_data s)) < MIN_SAMPLES_FOR_TRANSCRIBE
             then world s @ [Print_cr, Print_ignoring_short]
        else log_of (request_and_type e (clip_of e s)
               (world s @ [Print_cr, Wavfile_write sample_rate (clip_of e s)])))"
    using i
    by (auto simp: on_release_def Let_def chord_released_iff set_pressed_def progress_defs
        clip_of_def final_def log_of_def split: sum.splits prod.splits)
  show "on_release e Shift_r s =
       (if audio_data s \<noteq> [] \<and> MIN_SAMPLES_FOR_TRANSCRIBE \<le> length (concat (audio_data s))
        then (case request_and_type e (clip_of e s)
                     (world s @ [Print_cr, Wavfile_write sample_rate (clip_of e s)]) of
                Inl (err, w) \<Rightarrow> Inl (err, final (on_release e Shift_r s))
              | Inr w \<Rightarrow> Inr (final (on_release e Shift_r s)))
        else Inr (final (on_release e Shift_r s)))"
    using i
    by (auto simp: on_release_def Let_def chord_released_iff set_pressed_def progress_defs
        clip_of_def final_def log_of_def split: sum.splits prod.splits)
  show "if audio_data s \<noteq> [] \<and> MIN_SAMPLES_FOR_TRANSCRIBE \<le> length (concat (audio_data s))
         then progress_current (final (on_release e Shift_r s)) = None
         else progress_current (final (on_release e Shift_r s)) \<noteq> None"
    using i
    by (auto simp: on_release_def Let_def chord_released_iff set_pressed_def progress_defs
        clip_of_def final_def log_of_def split: sum.splits prod.splits)
  show "task_index (progress (final (on_release e Shift_r s))) = task_index (progress s) + 1"
    using i
    by (auto simp: on_release_def Let_def chord_released_iff set_pressed_def progress_defs
        clip_of_def final_def log_of_def split: sum.splits prod.splits)
qed

subsection \<open>Holds, and engaging anew\<close>

lemma run_hold:
  "hold evs s \<Longrightarrow> recording s \<Longrightarrow>
   \<exists>s1. run e evs s = Inr s1 \<and> audio_data s1 = audio_data s @ frames_of evs \<and> recording s1 \<and>
        task_live s1 = task_live s \<and> posted (world s1) = posted (world s)"
proof (induction evs arbitrary: s)
  case Nil
  then show ?case by simp
next
  case (Cons ev evs)
  show ?case
  proof (cases ev)
    case (Press k)
    with Cons.prems have n: "\<not> chord_engaged k s" and h: "hold evs (set_pressed True k s)"
      by simp_all
    have "recording (set_pressed True k s)" using Cons.prems by (simp add: set_pressed_simps)
    from Cons.IH [OF h this] Press n show ?thesis
      by (simp add: on_press_not_engaged set_pressed_simps task_live_set_pressed)
  next
    case (Release k)
    with Cons.prems have k: "k \<noteq> Shift_r" and h: "hold evs (set_pressed False k s)"
      by (simp_all add: RECORD_KEY_def)
    have "recording (set_pressed False k s)" using Cons.prems by (simp add: set_pressed_simps)
    from Cons.IH [OF h this] Release k show ?thesis
      by (simp add: on_release_other set_pressed_simps task_live_set_pressed)
  next
    case (Audio f st)
    with Cons.prems have h: "hold evs (callback f st s)"
      by simp
    have r: "recording (callback f st s)" using Cons.prems by (simp add: callback_fields)
    have p: "posted (world (callback f st s)) = posted (world s)"
      by (simp add: callback_fields posted_append)
    from Cons.IH [OF h r] Audio Cons.prems p show ?thesis
      by (simp add: callback_fields task_live_callback)
  qed
qed

lemma on_press_ok:
  assumes "progress_current s = None \<or> task_live s"
  shows "\<exists>s'. on_press k s = Inr s'"
proof (cases "chord_engaged k s")
  case False
  then show ?thesis by (simp add: on_press_not_engaged)
next
  case True
  from assms show ?thesis
  proof
    assume "progress_current s = None"
    with True show ?thesis
      by (simp add: on_press_def Let_def set_pressed_simps progress_defs)
  next
    assume "task_live s"
    then obtain i where "progress_current s = Some i" "i \<in> set (tasks (progress s))"
      by (auto simp: task_live_def split: option.splits)
    with True show ?thesis
      by (simp add: on_press_def Let_def set_pressed_simps progress_defs)
  qed
qed

lemma engage_after_release:
  assumes "progress_current s = None" "\<not> pressed_shift s"
  shows "\<exists>s''. run e [Press Ctrl_r, Press Shift_r] s = Inr s'' \<and> recording s'' \<and>
           audio_data s'' = [] \<and> world s'' = world s"
proof -
  let ?s1 = "set_pressed True Ctrl_r s"
  have ne: "\<not> chord_engaged Ctrl_r s" using assms by (simp add: chord_engaged_iff)
  have 1: "on_press Ctrl_r s = Inr ?s1" using ne by (rule on_press_not_engaged)
  have en: "chord_engaged Shift_r ?s1" by (simp add: chord_engaged_iff set_pressed_simps)
  have "progress_current ?s1 = None \<or> task_live ?s1" using assms by (simp add: set_pressed_simps)
  then obtain s2 where 2: "on_press Shift_r ?s1 = Inr s2" using on_press_ok by blast
  from on_press_engaged [OF en 2] have "recording s2 \<and> audio_data s2 = [] \<and> world s2 = world s"
    by (simp add: set_pressed_simps)
  with 1 2 show ?thesis by simp
qed

lemma MIN_pos: "0 < MIN_SAMPLES_FOR_TRANSCRIBE"
  by (simp add: MIN_SAMPLES_FOR_TRANSCRIBE_def)

text \<open>Before the record key is pressed for the first time there is no task.\<close>

lemma on_release_shift_no_task:
  "progress_current s = None \<Longrightarrow>
   on_release e Shift_r s = Inl (KeyError, s\<lparr>pressed_shift := False, recording := False\<rparr>)"
  by (simp add: on_release_def Let_def chord_released_iff set_pressed_def progress_defs)

lemma no_shift_press:
  "run e evs s = Inr s' \<Longrightarrow> Press Shift_r \<notin> set evs \<Longrightarrow> progress_current s = None \<Longrightarrow>
   \<not> pressed_shift s \<Longrightarrow> progress_current s' = None \<and> \<not> pressed_shift s'"
proof (induction evs arbitrary: s)
  case Nil
  then show ?case by simp
next
  case (Cons ev evs)
  show ?case
  proof (cases ev)
    case (Press k)
    with Cons.prems have k: "k \<noteq> Shift_r" by auto
    with Cons.prems have n: "\<not> chord_engaged k s" by (simp add: chord_engaged_iff)
    from Cons.prems Press n have r: "run e evs (set_pressed True k s) = Inr s'"
      by (simp add: on_press_not_engaged)
    from Cons.IH [OF r] Cons.prems k show ?thesis by (simp add: set_pressed_simps)
  next
    case (Release k)
    show ?thesis
    proof (cases "k = Shift_r")
      case True
      with Cons.prems Release show ?thesis by (simp add: on_release_shift_no_task)
    next
      case False
      with Cons.prems Release have r: "run e evs (set_pressed False k s) = Inr s'"
        by (simp add: on_release_other)
      from Cons.IH [OF r] Cons.prems False show ?thesis by (simp add: set_pressed_simps)
    qed
  next
    case (Audio f st)
    with Cons.prems have r: "run e evs (callback f st s) = Inr s'" by simp
    from Cons.IH [OF r] Cons.prems show ?thesis by (simp add: callback_fields)
  qed
qed

subsection \<open>Evaluation on the concrete configuration\<close>

lemmas eval_defs = on_press_def on_release_def callback_def set_pressed_def chord_engaged_def
  chord_released_def RECORD_KEY_def progress_defs init_def init_example_def env_example_def
  engaged_example_def recorded_example_def Let_def request_and_type_def
  MIN_SAMPLES_FOR_TRANSCRIBE_def sample_rate_def clip_of_def log_of_def final_def

lemma length_long_frame: "length long_frame = 8000"
  by (simp add: long_frame_def)

lemma run_engaged_example:
  "run (env_example raw r) [Press Ctrl_r, Press Shift_r] init = Inr engaged_example"
  by (simp add: eval_defs)

lemma run_recorded_example:
  "run (env_example raw r) [Press Ctrl_r, Press Shift_r, Audio long_frame False] init =
     Inr recorded_example"
  by (simp add: eval_defs)

section \<open>The claims\<close>

text \<open>
  Claim C6. With raw mode on, for every text and every macro table, no macro is looked
  up and the text is typed unchanged (for the empty text the call of the keyboard
  controller is skipped, and nothing is typed).
\<close>

theorem C6_raw_mode:
  "RAW_MODE e \<Longrightarrow>
   process_typed e text w = Inr (if text = [] then w else w @ [Keyboard_type text])"
  by (simp add: process_typed_def)

theorem C6_raw_mode_witness:
  "RAW_MODE (env_example True Transport_error) \<and>
   process_typed (env_example True Transport_error) (ascii ''STOP'') [] =
     Inr [Keyboard_type (ascii ''STOP'')]"
proof -
  have h: "RAW_MODE (env_example True Transport_error)" by (simp add: env_example_def)
  from C6_raw_mode [OF h, of "ascii ''STOP''" "[]"] h show ?thesis by (simp add: ascii_def)
qed

text \<open>
  Claim C4. At the release of the record key that ends a recording (any state reached
  from the start in which \<open>recording\<close> is set), if no frame was captured, or the clip
  has fewer than 8000 samples, the handler returns after one plain message (the text of
  the ValueError, or the "ignoring short response" line): nothing is written, nothing is
  posted, nothing is typed, and no error line is printed.
\<close>

theorem C4_short_or_empty_clip_dropped:
  assumes "run e evs init = Inr s" and "recording s"
    and "audio_data s = [] \<or> length (concat (audio_data s)) < MIN_SAMPLES_FOR_TRANSCRIBE"
  shows "MIN_SAMPLES_FOR_TRANSCRIBE = 8000 \<and>
    (\<exists>s'. on_release e Shift_r s = Inr s' \<and>
       world s' = world s @
         [Print_cr, if audio_data s = [] then Print_value_error else Print_ignoring_short] \<and>
       posted (world s') = posted (world s))"
proof -
  let ?s' = "final (on_release e Shift_r s)"
  from assms(1,2) have live: "task_live s" using recording_task_live by blast
  from assms(3) MIN_pos have short:
    "\<not> (audio_data s \<noteq> [] \<and> MIN_SAMPLES_FOR_TRANSCRIBE \<le> length (concat (audio_data s)))"
    by auto
  from on_release_shift_live(2) [OF live, of e] short have r: "on_release e Shift_r s = Inr ?s'"
    by simp
  from on_release_shift_live(1) [OF live, of e] assms(3) have w: "world ?s' = world s @
         [Print_cr, if audio_data s = [] then Print_value_error else Print_ignoring_short]"
    by auto
  then have p: "posted (world ?s') = posted (world s)"
    by (simp add: posted_append)
  from r w p have "\<exists>s'. on_release e Shift_r s = Inr s' \<and>
       world s' = world s @
         [Print_cr, if audio_data s = [] then Print_value_error else Print_ignoring_short] \<and>
       posted (world s') = posted (world s)"
    by blast
  moreover have "MIN_SAMPLES_FOR_TRANSCRIBE = 8000"
    by (simp add: MIN_SAMPLES_FOR_TRANSCRIBE_def)
  ultimately show ?thesis by blast
qed

theorem C4_short_or_empty_clip_dropped_witness:
  "\<exists>s'. on_release (env_example False (Transcript (ascii ''wake''))) Shift_r engaged_example =
          Inr s' \<and>
        world s' = [Print_cr, Print_value_error] \<and> posted (world s') = []"
proof -
  have 1: "run (env_example False (Transcript (ascii ''wake''))) [Press Ctrl_r, Press Shift_r] init =
      Inr engaged_example"
    by (rule run_engaged_example)
  have 2: "recording engaged_example" by (simp add: engaged_example_def)
  have 3: "audio_data engaged_example = [] \<or>
           length (concat (audio_data engaged_example)) < MIN_SAMPLES_FOR_TRANSCRIBE"
    by (simp add: engaged_example_def)
  have 4: "world engaged_example = []" "audio_data engaged_example = []"
    by (simp_all add: engaged_example_def)
  from C4_short_or_empty_clip_dropped [OF 1 2 3] show ?thesis
    by (simp add: 4)
qed

text \<open>
  Claim C7. At the release that ends a recording with a clip of at least 8000 samples,
  if the request fails in transport or with a bad status, the handler prints the request
  error and nothing else after the post: no macro is looked up and nothing is typed. The
  handler returns with \<open>recording\<close> off, and pressing the chord again starts a new
  recording with an empty buffer.
\<close>

theorem C7_failed_request:
  assumes "run e evs init = Inr s" and "recording s"
    and "MIN_SAMPLES_FOR_TRANSCRIBE \<le> length (concat (audio_data s))"
    and "transcribe e (clip_of e s) = Transport_error \<or> transcribe e (clip_of e s) = Bad_status"
  shows "\<exists>s'. on_release e Shift_r s = Inr s' \<and>
       world s' = world s @ [Print_cr, Wavfile_write sample_rate (clip_of e s),
                             Requests_post (clip_of e s), Print_request_error] \<and>
       \<not> recording s' \<and>
       (\<exists>s''. run e [Press Ctrl_r, Press Shift_r] s' = Inr s'' \<and> recording s'' \<and>
              audio_data s'' = [] \<and> world s'' = world s')"
proof -
  let ?s' = "final (on_release e Shift_r s)"
  let ?w = "world s @ [Print_cr, Wavfile_write sample_rate (clip_of e s)]"
  from assms(1,2) have live: "task_live s" using recording_task_live by blast
  from assms(3) MIN_pos have ne: "audio_data s \<noteq> []" by auto
  have rt: "request_and_type e (clip_of e s) ?w =
      Inr (?w @ [Requests_post (clip_of e s), Print_request_error])"
    using assms(4) by (rule request_and_type_failed)
  from on_release_shift_live(2) [OF live, of e] ne assms(3) rt
  have r: "on_release e Shift_r s = Inr ?s'" by simp
  from on_release_shift_live(1) [OF live, of e] ne assms(3) rt
  have w: "world ?s' = world s @ [Print_cr, Wavfile_write sample_rate (clip_of e s),
                             Requests_post (clip_of e s), Print_request_error]"
    by (simp add: log_of_def)
  from on_release_shift_live(3) [OF live, of e] ne assms(3)
  have c: "progress_current ?s' = None" by simp
  from on_release_shift_fields [of e s] have f: "\<not> recording ?s'" "\<not> pressed_shift ?s'"
    by simp_all
  from engage_after_release [OF c f(2), of e] r w f show ?thesis by blast
qed

theorem C7_failed_request_witness:
  "\<exists>s'. on_release (env_example False Transport_error) Shift_r recorded_example = Inr s' \<and>
        world s' = [Print_cr, Wavfile_write 16000 long_frame, Requests_post long_frame,
                    Print_request_error] \<and>
        \<not> recording s' \<and>
        (\<exists>s''. run (env_example False Transport_error) [Press Ctrl_r, Press Shift_r] s' = Inr s'' \<and>
               recording s'' \<and> audio_data s'' = [] \<and> world s'' = world s')"
proof -
  let ?e = "env_example False Transport_error"
  have 1: "run ?e [Press Ctrl_r, Press Shift_r, Audio long_frame False] init = Inr recorded_example"
    by (rule run_recorded_example)
  have 2: "recording recorded_example" by (simp add: recorded_example_def engaged_example_def)
  have 3: "MIN_SAMPLES_FOR_TRANSCRIBE \<le> length (concat (audio_data recorded_example))"
    by (simp add: recorded_example_def engaged_example_def length_long_frame
        MIN_SAMPLES_FOR_TRANSCRIBE_def)
  have 4: "transcribe ?e (clip_of ?e recorded_example) = Transport_error \<or>
           transcribe ?e (clip_of ?e recorded_example) = Bad_status"
    by (simp add: env_example_def)
  have 5: "clip_of ?e recorded_example = long_frame"
    by (simp add: clip_of_def recorded_example_def engaged_example_def env_example_def)
  have 6: "world recorded_example = []"
    by (simp add: recorded_example_def engaged_example_def)
  from C7_failed_request [OF 1 2 3 4] show ?thesis
    by (simp add: 5 6 sample_rate_def)
qed

text \<open>
  Claim C10. At the release that ends a recording with a clip of at least 8000 samples,
  if the server answers with an empty text, nothing follows the post in the log:
  \<open>process_typed\<close> is not called, so no macro fires (whatever the table holds, a key
  \<open>""\<close> included) and nothing is typed.
\<close>

theorem C10_empty_transcript:
  assumes "run e evs init = Inr s" and "recording s"
    and "MIN_SAMPLES_FOR_TRANSCRIBE \<le> length (concat (audio_data s))"
    and "transcribe e (clip_of e s) = Transcript []"
  shows "\<exists>s'. on_release e Shift_r s = Inr s' \<and>
       world s' = world s @ [Print_cr, Wavfile_write sample_rate (clip_of e s),
                             Requests_post (clip_of e s)]"
proof -
  let ?s' = "final (on_release e Shift_r s)"
  let ?w = "world s @ [Print_cr, Wavfile_write sample_rate (clip_of e s)]"
  from assms(1,2) have live: "task_live s" using recording_task_live by blast
  from assms(3) MIN_pos have ne: "audio_data s \<noteq> []" by auto
  have rt: "request_and_type e (clip_of e s) ?w = Inr (?w @ [Requests_post (clip_of e s)])"
    using assms(4) by (rule request_and_type_empty)
  from on_release_shift_live(2) [OF live, of e] ne assms(3) rt
  have r: "on_release e Shift_r s = Inr ?s'" by simp
  from on_release_shift_live(1) [OF live, of e] ne assms(3) rt
  have "world ?s' = world s @ [Print_cr, Wavfile_write sample_rate (clip_of e s),
                             Requests_post (clip_of e s)]"
    by (simp add: log_of_def)
  with r show ?thesis by blast
qed

theorem C10_empty_transcript_witness:
  "\<exists>s'. on_release (env_example False (Transcript [])\<lparr>MACROS := [([], Callable 7)]\<rparr>) Shift_r
          recorded_example = Inr s' \<and>
        world s' = [Print_cr, Wavfile_write 16000 long_frame, Requests_post long_frame]"
proof -
  let ?e = "env_example False (Transcript [])\<lparr>MACROS := [([], Callable 7)]\<rparr>"
  have 1: "run ?e [Press Ctrl_r, Press Shift_r, Audio long_frame False] init = Inr recorded_example"
    by (simp add: eval_defs)
  have 2: "recording recorded_example" by (simp add: recorded_example_def engaged_example_def)
  have 3: "MIN_SAMPLES_FOR_TRANSCRIBE \<le> length (concat (audio_data recorded_example))"
    by (simp add: recorded_example_def engaged_example_def length_long_frame
        MIN_SAMPLES_FOR_TRANSCRIBE_def)
  have 4: "transcribe ?e (clip_of ?e recorded_example) = Transcript []"
    by (simp add: env_example_def)
  have 5: "clip_of ?e recorded_example = long_frame"
    by (simp add: clip_of_def recorded_example_def engaged_example_def env_example_def)
  have 6: "world recorded_example = []"
    by (simp add: recorded_example_def engaged_example_def)
  from C10_empty_transcript [OF 1 2 3 4] show ?thesis
    by (simp add: 5 6 sample_rate_def)
qed

text \<open>
  Claim C1, as amended. In every state reached from the start in which the chord is
  engaged (both key flags set, \<open>recording\<close> set), a further press event (of a held
  chord key, or of any key) engages the chord again: the handler returns, both flags and
  \<open>recording\<close> stay set, and the session is started anew, the frames accumulated so far
  being discarded.
\<close>

theorem C1_repeated_press_restarts:
  assumes "run e evs init = Inr s" and "recording s" and "pressed_ctrl s" and "pressed_shift s"
  shows "chord_engaged k s \<and>
    (\<exists>s'. on_press k s = Inr s' \<and> recording s' \<and> pressed_ctrl s' \<and> pressed_shift s' \<and>
          audio_data s' = [] \<and> world s' = world s)"
proof -
  from assms(1,2) have "task_live s" using recording_task_live by blast
  then obtain s' where p: "on_press k s = Inr s'" using on_press_ok by blast
  have en: "chord_engaged k s" using assms(3,4) by (simp add: chord_engaged_iff)
  from on_press_engaged [OF en p] p en show ?thesis by blast
qed

theorem C1_repeated_press_restarts_witness:
  "chord_engaged Shift_r recorded_example \<and>
   (\<exists>s'. on_press Shift_r recorded_example = Inr s' \<and> recording s' \<and> pressed_ctrl s' \<and>
         pressed_shift s' \<and> audio_data s' = [] \<and> world s' = [])"
proof -
  have 1: "run (env_example False Transport_error)
             [Press Ctrl_r, Press Shift_r, Audio long_frame False] init = Inr recorded_example"
    by (rule run_recorded_example)
  have 2: "recording recorded_example" "pressed_ctrl recorded_example"
    "pressed_shift recorded_example" "world recorded_example = []"
    by (simp_all add: recorded_example_def engaged_example_def)
  from C1_repeated_press_restarts [OF 1 2(1) 2(2) 2(3), of Shift_r] show ?thesis
    by (simp add: 2(4))
qed

text \<open>
  The claim as stated fails: after the chord and one frame, a repeated press of the held
  shift key empties \<open>audio_data\<close> and replaces the task of the progress display.
\<close>

theorem C1_counterexample:
  "run (env_example False Transport_error)
     [Press Ctrl_r, Press Shift_r, Audio [1, 2] False] init =
   Inr \<lparr>recording = True, audio_data = [[1, 2]], pressed_ctrl = True, pressed_shift = True,
        progress = \<lparr>tasks = [0], task_index = 1, started = True\<rparr>,
        progress_current = Some 0, world = []\<rparr> \<and>
   run (env_example False Transport_error)
     [Press Ctrl_r, Press Shift_r, Audio [1, 2] False, Press Shift_r] init =
   Inr \<lparr>recording = True, audio_data = [], pressed_ctrl = True, pressed_shift = True,
        progress = \<lparr>tasks = [1], task_index = 2, started = True\<rparr>,
        progress_current = Some 1, world = []\<rparr>"
  by (simp add: eval_defs)






text \<open>
  Claim C3, as amended. A frame delivered while \<open>recording\<close> is off changes nothing but
  the printed status: it reaches no clip. A frame delivered while \<open>recording\<close> is set is
  appended at the end of \<open>audio_data\<close>. After a press that engages the chord, a hold in
  which no press engages the chord again (frames, releases of keys other than the record
  key, presses while a chord key is up), followed by the release of the record key, posts
  exactly one clip, the conversion of the concatenation of the frames of the hold in
  their order of arrival, when that has at least 8000 samples, and posts nothing
  otherwise, whether the handler returns or raises after the post.
\<close>

theorem C3_frames_and_clip:
  "(\<not> recording s \<longrightarrow>
      callback indata status s = (if status then s\<lparr>world := world s @ [Print_status]\<rparr> else s)) \<and>
   (recording s \<longrightarrow> audio_data (callback indata status s) = audio_data s @ [indata]) \<and>
   (chord_engaged k s0 \<and> on_press k s0 = Inr s1 \<and> hold evs s1 \<longrightarrow>
      (\<exists>s2. run e evs s1 = Inr s2 \<and> audio_data s2 = frames_of evs \<and>
         posted (world s2) = posted (world s0) \<and>
         posted (world (final (on_release e Shift_r s2))) =
           (if length (concat (frames_of evs)) < MIN_SAMPLES_FOR_TRANSCRIBE
            then posted (world s0)
            else posted (world s0) @ [map (to_int16 e) (concat (frames_of evs))])))"
proof -
  have 1: "\<not> recording s \<longrightarrow>
      callback indata status s = (if status then s\<lparr>world := world s @ [Print_status]\<rparr> else s)"
    by (simp add: callback_def Let_def)
  have 2: "recording s \<longrightarrow> audio_data (callback indata status s) = audio_data s @ [indata]"
    by (simp add: callback_fields)
  have 3: "\<exists>s2. run e evs s1 = Inr s2 \<and> audio_data s2 = frames_of evs \<and>
         posted (world s2) = posted (world s0) \<and>
         posted (world (final (on_release e Shift_r s2))) =
           (if length (concat (frames_of evs)) < MIN_SAMPLES_FOR_TRANSCRIBE
            then posted (world s0)
            else posted (world s0) @ [map (to_int16 e) (concat (frames_of evs))])"
    if en: "chord_engaged k s0" and p: "on_press k s0 = Inr s1" and h: "hold evs s1"
  proof -
    from on_press_engaged [OF en p] have s1: "recording s1" "audio_data s1 = []" "task_live s1"
      "world s1 = world s0" by simp_all
    from run_hold [OF h s1(1), of e] obtain s2 where
      s2: "run e evs s1 = Inr s2" "audio_data s2 = frames_of evs" "task_live s2"
        "posted (world s2) = posted (world s0)"
      using s1 by auto
    have "posted (world (final (on_release e Shift_r s2))) =
           (if length (concat (frames_of evs)) < MIN_SAMPLES_FOR_TRANSCRIBE
            then posted (world s0)
            else posted (world s0) @ [map (to_int16 e) (concat (frames_of evs))])"
      using on_release_shift_live(1) [OF s2(3), of e] s2(2,4) MIN_pos
      by (auto simp: posted_append posted_request_and_type clip_of_def)
    with s2 show ?thesis by blast
  qed
  from 1 2 3 show ?thesis by blast
qed

theorem C3_frames_and_clip_witness:
  "callback [5] False init_example = init_example \<and>
   audio_data (callback [5] False engaged_example) = [[5]] \<and>
   (\<exists>s2. run (env_example False Transport_error)
            [Audio [5] False, Release Ctrl_r, Press (Other_key 0), Audio long_frame False]
            engaged_example = Inr s2 \<and>
         audio_data s2 = [[5], long_frame] \<and> posted (world s2) = [] \<and>
         posted (world (final (on_release (env_example False Transport_error) Shift_r s2))) =
           [5 # long_frame])"
proof -
  let ?e = "env_example False Transport_error"
  let ?s0 = "init_example\<lparr>pressed_ctrl := True\<rparr>"
  let ?evs = "[Audio [5] False, Release Ctrl_r, Press (Other_key 0), Audio long_frame False]"
  have a: "\<not> recording init_example" by (simp add: init_example_def init_def)
  have b: "recording engaged_example" "audio_data engaged_example = []"
    by (simp_all add: engaged_example_def)
  have c: "chord_engaged Shift_r ?s0 \<and> on_press Shift_r ?s0 = Inr engaged_example \<and>
           hold ?evs engaged_example"
    by (simp add: eval_defs)
  have d: "\<not> length (concat (frames_of ?evs)) < MIN_SAMPLES_FOR_TRANSCRIBE"
    by (simp add: length_long_frame MIN_SAMPLES_FOR_TRANSCRIBE_def)
  have f: "posted (world ?s0) = []" "to_int16 ?e = id"
    by (simp_all add: init_example_def init_def env_example_def)
  have 1: "callback [5] False init_example = init_example"
    using C3_frames_and_clip [of init_example "[5]" False Shift_r ?s0 engaged_example ?evs ?e] a
    by simp
  have 2: "audio_data (callback [5] False engaged_example) = [[5]]"
    using C3_frames_and_clip [of engaged_example "[5]" False Shift_r ?s0 engaged_example ?evs ?e] b
    by simp
  have 3: "\<exists>s2. run ?e ?evs engaged_example = Inr s2 \<and>
         audio_data s2 = [[5], long_frame] \<and> posted (world s2) = [] \<and>
         posted (world (final (on_release ?e Shift_r s2))) = [5 # long_frame]"
    using C3_frames_and_clip [of init_example "[5]" False Shift_r ?s0 engaged_example ?evs ?e]
      c d f
    by simp
  from 1 2 3 show ?thesis by blast
qed

text \<open>
  The claim as stated fails: the frame \<open>[5]\<close> is delivered while \<open>recording\<close> is set, a
  press event with both chord keys held discards it, and the clip posted at the release
  holds the later frame only.
\<close>

theorem C3_counterexample:
  "run (env_example False Transport_error) [Press Ctrl_r, Press Shift_r, Audio [5] False] init =
     Inr (engaged_example\<lparr>audio_data := [[5]]\<rparr>) \<and>
   recording (engaged_example\<lparr>audio_data := [[5]]\<rparr>) \<and>
   run (env_example False Transport_error)
     [Press Ctrl_r, Press Shift_r, Audio [5] False, Press Ctrl_r, Audio long_frame False,
      Release Shift_r] init =
     Inr \<lparr>recording = False, audio_data = [long_frame], pressed_ctrl = True,
          pressed_shift = False,
          progress = \<lparr>tasks = [], task_index = 3, started = False\<rparr>,
          progress_current = None,
          world = [Print_cr, Wavfile_write 16000 long_frame, Requests_post long_frame,
                   Print_request_error]\<rparr>"
  by (simp add: eval_defs length_long_frame)

text \<open>
  Claim C8. The claim holds of the code for \<open>ctrl_r\<close> and fails for the record key: in
  every state reached from the start by events without a press of \<open>shift_r\<close>, the key is
  not recorded as pressed, and its release event takes the branch of the finalisation,
  where \<^verbatim>\<open>progress.stop_task(progress_current)\<close> is called with \<^verbatim>\<open>None\<close> and raises KeyError
  out of the handler. (\<^verbatim>\<open>on_press\<close> tests \<^verbatim>\<open>progress_current is not None\<close> before it
  touches the task; \<^verbatim>\<open>on_release\<close> does not.)
\<close>

theorem C8_unpressed_record_key_release_raises:
  assumes "run e evs init = Inr s" and "Press Shift_r \<notin> set evs"
  shows "\<not> pressed_shift s \<and> chord_released Shift_r s \<and>
    on_release e Shift_r s = Inl (KeyError, s\<lparr>pressed_shift := False, recording := False\<rparr>) \<and>
    on_release e Ctrl_r s = Inr (s\<lparr>pressed_ctrl := False\<rparr>)"
proof -
  have "progress_current (init :: ('a, 'b) state) = None"
    "\<not> pressed_shift (init :: ('a, 'b) state)"
    by (simp_all add: init_def)
  from no_shift_press [OF assms this] have n: "progress_current s = None" "\<not> pressed_shift s"
    by simp_all
  from on_release_shift_no_task [OF n(1), of e] n(2) show ?thesis
    by (simp add: chord_released_iff on_release_ctrl)
qed

theorem C8_unpressed_record_key_release_raises_witness:
  "on_release (env_example False Transport_error) Shift_r init_example =
     Inl (KeyError, init_example) \<and>
   on_release (env_example False Transport_error) Shift_r (init_example\<lparr>pressed_ctrl := True\<rparr>) =
     Inl (KeyError, init_example\<lparr>pressed_ctrl := True\<rparr>)"
proof -
  let ?e = "env_example False Transport_error"
  let ?c = "init_example\<lparr>pressed_ctrl := True\<rparr>"
  have r0: "run ?e [] init = Inr init_example" by (simp add: init_example_def)
  have r1: "run ?e [Press Ctrl_r] init = Inr ?c" by (simp add: eval_defs)
  have n0: "Press Shift_r \<notin> set ([] :: int event list)" by simp
  have n1: "Press Shift_r \<notin> set [Press Ctrl_r :: int event]" by simp
  have u: "init_example\<lparr>pressed_shift := False, recording := False\<rparr> = init_example"
    "?c\<lparr>pressed_shift := False, recording := False\<rparr> = ?c"
    by (simp_all add: init_example_def init_def)
  from C8_unpressed_record_key_release_raises [OF r0 n0]
    C8_unpressed_record_key_release_raises [OF r1 n1] u
  show ?thesis by simp
qed

end
